theory Spec2Isabelle
  imports
    Main
    "HOL-Library.AList"
    "HOL-Library.Multiset"
    "HOL-Library.Char_ord"
    "HOL-Library.List_Lexorder"
begin

section \<open>The task record\<close>

text \<open>
  A task is the dictionary that \<^verbatim>\<open>add_task\<close> builds (src/task_manager.py, lines 37-45):
  seven keys, an integer under \<^verbatim>\<open>'id'\<close> and strings under the six others. \<^verbatim>\<open>update_task\<close>
  assigns only to keys that are already present, so the set of keys never changes and
  the dictionary is a record. The field for the key \<^verbatim>\<open>'id'\<close> is called \<open>id_key\<close>, since
  \<open>id\<close> is the identity function of HOL. Timestamps are the strings that
  \<^verbatim>\<open>datetime.now().isoformat()\<close> returns; strings are compared as Python compares them,
  character by character.
\<close>

record task =
  id_key :: int
  title :: string
  description :: string
  priority :: string
  status :: string
  created_at :: string
  updated_at :: string

section \<open>The backing document\<close>

text \<open>
  The file at \<^verbatim>\<open>data_file\<close>, by what reading it does. It is absent; or it is present and
  \<^verbatim>\<open>json.load\<close> does not return a value, for one of three reasons: its bytes are not text
  in the encoding of the file (\<open>Undecodable\<close>, for instance the four bytes
  \<^verbatim>\<open>ff fe 5b 5d\<close> under UTF-8), its text nests arrays or objects deeper than the
  interpreter's recursion limit (\<open>Too_deep\<close>, for instance 100000 opening brackets), or
  its text is rejected by the JSON grammar (\<open>Garbage\<close>); or it holds the JSON array of a
  list of tasks. A JSON text of the last kind is identified with the list it denotes:
  \<^verbatim>\<open>json.dump\<close> writes \<open>Json ts\<close> and \<^verbatim>\<open>json.load\<close> reads \<open>ts\<close> back.
\<close>

datatype contents = Absent | Undecodable | Too_deep | Garbage | Json "task list"

datatype error = FileNotFoundError | UnicodeDecodeError | RecursionError | JSONDecodeError

text \<open>\<^verbatim>\<open>os.path.exists(self.data_file)\<close>, line 16.\<close>

fun path_exists :: "contents \<Rightarrow> bool" where
  "path_exists Absent = False"
| "path_exists Undecodable = True"
| "path_exists Too_deep = True"
| "path_exists Garbage = True"
| "path_exists (Json ts) = True"

text \<open>
  \<^verbatim>\<open>open(self.data_file, 'r')\<close> followed by \<^verbatim>\<open>json.load(f)\<close>, lines 18-19. \<^verbatim>\<open>json.load\<close> reads the
  whole file as text, which raises \<^verbatim>\<open>UnicodeDecodeError\<close> on bytes that are not text, and
  then parses it, which raises \<^verbatim>\<open>RecursionError\<close> on text that nests too deep and
  \<^verbatim>\<open>JSONDecodeError\<close> on text that is not JSON.
\<close>

fun json_load :: "contents \<Rightarrow> error + task list" where
  "json_load Absent = Inl FileNotFoundError"
| "json_load Undecodable = Inl UnicodeDecodeError"
| "json_load Too_deep = Inl RecursionError"
| "json_load Garbage = Inl JSONDecodeError"
| "json_load (Json ts) = Inr ts"

section \<open>The store\<close>

record store =
  data_file :: string
  tasks :: "task list"
  next_id :: int
  document :: contents

text \<open>
  \<^verbatim>\<open>load_tasks\<close>, lines 14-22. The \<^verbatim>\<open>except\<close> clause of line 20 names the two errors it
  catches; \<^verbatim>\<open>UnicodeDecodeError\<close> and \<^verbatim>\<open>RecursionError\<close> are subclasses of neither, so they
  leave the function.
\<close>

definition load_tasks :: "contents \<Rightarrow> error + task list" where
  "load_tasks d =
     (if path_exists d then
        (case json_load d of
           Inr ts \<Rightarrow> Inr ts
         | Inl JSONDecodeError \<Rightarrow> Inr []
         | Inl FileNotFoundError \<Rightarrow> Inr []
         | Inl UnicodeDecodeError \<Rightarrow> Inl UnicodeDecodeError
         | Inl RecursionError \<Rightarrow> Inl RecursionError)
      else Inr [])"

text \<open>\<^verbatim>\<open>save_tasks\<close>, lines 24-27: the whole collection replaces the document.\<close>

definition save_tasks :: "store \<Rightarrow> store" where
  "save_tasks s = s\<lparr>document := Json (tasks s)\<rparr>"

text \<open>
  \<^verbatim>\<open>get_next_id\<close>, lines 29-33. Python's \<^verbatim>\<open>max\<close> runs over the ids from left to right and
  keeps the largest seen so far.
\<close>

definition get_next_id :: "task list \<Rightarrow> int" where
  "get_next_id ts =
     (case map id_key ts of
        [] \<Rightarrow> 1
      | x # xs \<Rightarrow> fold max xs x + 1)"

text \<open>\<^verbatim>\<open>__init__\<close>, lines 9-12, on a file system where the file at the path holds \<open>d\<close>.\<close>

definition init :: "string \<Rightarrow> contents \<Rightarrow> error + store" where
  "init path d =
     (case load_tasks d of
        Inl e \<Rightarrow> Inl e
      | Inr ts \<Rightarrow>
          Inr \<lparr>data_file = path, tasks = ts, next_id = get_next_id ts, document = d\<rparr>)"

subsection \<open>add\<close>

text \<open>
  \<^verbatim>\<open>add_task\<close>, lines 35-49. The clock is read twice, once for each timestamp; the two
  readings are the arguments \<open>now1\<close> and \<open>now2\<close>. The result is the returned task
  and the store the call leaves.
\<close>

definition add_task ::
  "store \<Rightarrow> string \<Rightarrow> string \<Rightarrow> string \<Rightarrow> string \<Rightarrow> string \<Rightarrow> task \<times> store" where
  "add_task s ttl descr prio now1 now2 =
     (let t = \<lparr>id_key = next_id s, title = ttl, description = descr, priority = prio,
                status = ''pending'', created_at = now1, updated_at = now2\<rparr>;
          s1 = s\<lparr>tasks := tasks s @ [t]\<rparr>;
          s2 = s1\<lparr>next_id := next_id s1 + 1\<rparr>
      in (t, save_tasks s2))"

subsection \<open>update\<close>

text \<open>
  A keyword argument of \<^verbatim>\<open>update_task\<close> is either one of the seven keys of a task, with
  a value for that field, or some other name. Line 56, \<^verbatim>\<open>if key in task\<close>, lets the first
  kind through to the assignment of line 57 and skips the second. The arguments of a call
  are listed in the order in which \<^verbatim>\<open>kwargs.items()\<close> yields them.
\<close>

datatype kwarg =
    Kw_id int
  | Kw_title string
  | Kw_description string
  | Kw_priority string
  | Kw_status string
  | Kw_created_at string
  | Kw_updated_at string
  | Kw_other string

fun set_item :: "kwarg \<Rightarrow> task \<Rightarrow> task" where
  "set_item (Kw_id v) t = t\<lparr>id_key := v\<rparr>"
| "set_item (Kw_title v) t = t\<lparr>title := v\<rparr>"
| "set_item (Kw_description v) t = t\<lparr>description := v\<rparr>"
| "set_item (Kw_priority v) t = t\<lparr>priority := v\<rparr>"
| "set_item (Kw_status v) t = t\<lparr>status := v\<rparr>"
| "set_item (Kw_created_at v) t = t\<lparr>created_at := v\<rparr>"
| "set_item (Kw_updated_at v) t = t\<lparr>updated_at := v\<rparr>"
| "set_item (Kw_other k) t = t"

text \<open>Lines 55-58: the loop over the keyword arguments, then the new timestamp.\<close>

definition update_fields :: "kwarg list \<Rightarrow> string \<Rightarrow> task \<Rightarrow> task" where
  "update_fields kwargs now t = (fold set_item kwargs t)\<lparr>updated_at := now\<rparr>"

text \<open>
  Lines 53-61: the scan stops at the first task whose id is the one asked for. The result
  is the updated task together with the collection that holds it in place of the old
  one, or \<open>None\<close> when the scan reaches the end.
\<close>

fun update_scan :: "task list \<Rightarrow> int \<Rightarrow> kwarg list \<Rightarrow> string \<Rightarrow> (task \<times> task list) option" where
  "update_scan [] k kwargs now = None"
| "update_scan (t # ts) k kwargs now =
     (if id_key t = k then
        (let t' = update_fields kwargs now t in Some (t', t' # ts))
      else
        (case update_scan ts k kwargs now of
           None \<Rightarrow> None
         | Some (t', ts') \<Rightarrow> Some (t', t # ts')))"

definition update_task :: "store \<Rightarrow> int \<Rightarrow> kwarg list \<Rightarrow> string \<Rightarrow> task option \<times> store" where
  "update_task s k kwargs now =
     (case update_scan (tasks s) k kwargs now of
        None \<Rightarrow> (None, s)
      | Some (t', ts') \<Rightarrow> (Some t', save_tasks (s\<lparr>tasks := ts'\<rparr>)))"

subsection \<open>delete\<close>

text \<open>Lines 65-70: the first task with the id is removed; \<open>None\<close> when there is none.\<close>

fun delete_scan :: "task list \<Rightarrow> int \<Rightarrow> task list option" where
  "delete_scan [] k = None"
| "delete_scan (t # ts) k =
     (if id_key t = k then Some ts
      else (case delete_scan ts k of None \<Rightarrow> None | Some ts' \<Rightarrow> Some (t # ts')))"

definition delete_task :: "store \<Rightarrow> int \<Rightarrow> bool \<times> store" where
  "delete_task s k =
     (case delete_scan (tasks s) k of
        None \<Rightarrow> (False, s)
      | Some ts' \<Rightarrow> (True, save_tasks (s\<lparr>tasks := ts'\<rparr>)))"

subsection \<open>The queries\<close>

text \<open>\<^verbatim>\<open>get_task\<close>, lines 72-77.\<close>

fun get_scan :: "task list \<Rightarrow> int \<Rightarrow> task option" where
  "get_scan [] k = None"
| "get_scan (t # ts) k = (if id_key t = k then Some t else get_scan ts k)"

definition get_task :: "store \<Rightarrow> int \<Rightarrow> task option \<times> store" where
  "get_task s k = (get_scan (tasks s) k, s)"

text \<open>
  \<^verbatim>\<open>list_tasks\<close>, lines 79-89. A filter is \<open>None\<close> (the default) or a string; \<^verbatim>\<open>if status:\<close>
  is true for a string that is not empty. \<^verbatim>\<open>sorted\<close> is stable, as \<open>sort_key\<close> is.
\<close>

fun truthy :: "string option \<Rightarrow> bool" where
  "truthy None = False"
| "truthy (Some x) = (x \<noteq> [])"

definition list_tasks :: "store \<Rightarrow> string option \<Rightarrow> string option \<Rightarrow> task list \<times> store" where
  "list_tasks s st pr =
     (let filtered_tasks = tasks s;
          filtered_tasks =
            (if truthy st then filter (\<lambda>t. Some (status t) = st) filtered_tasks
             else filtered_tasks);
          filtered_tasks =
            (if truthy pr then filter (\<lambda>t. Some (priority t) = pr) filtered_tasks
             else filtered_tasks)
      in (sort_key id_key filtered_tasks, s))"

text \<open>
  \<^verbatim>\<open>get_stats\<close>, lines 91-107. \<^verbatim>\<open>priority_stats\<close> is a dictionary, which keeps its keys in
  the order of their first assignment: an association list, where \<open>AList.update\<close>
  replaces the value of a key in place and puts a new key at the end.
\<close>

record stats =
  total :: nat
  pending :: nat
  completed :: nat
  by_priority :: "(string \<times> nat) list"

definition dict_get :: "(string \<times> nat) list \<Rightarrow> string \<Rightarrow> nat \<Rightarrow> nat" where
  "dict_get d k dflt = (case map_of d k of None \<Rightarrow> dflt | Some v \<Rightarrow> v)"

fun priority_loop :: "task list \<Rightarrow> (string \<times> nat) list \<Rightarrow> (string \<times> nat) list" where
  "priority_loop [] priority_stats = priority_stats"
| "priority_loop (t # ts) priority_stats =
     priority_loop ts
       (AList.update (priority t) (dict_get priority_stats (priority t) 0 + 1) priority_stats)"

definition get_stats :: "store \<Rightarrow> stats \<times> store" where
  "get_stats s =
     (\<lparr>total = length (tasks s),
       pending = length (filter (\<lambda>t. status t = ''pending'') (tasks s)),
       completed = length (filter (\<lambda>t. status t = ''completed'') (tasks s)),
       by_priority = priority_loop (tasks s) []\<rparr>, s)"

text \<open>
  \<^verbatim>\<open>search_tasks\<close>, lines 109-113. A Python string is held as the bytes of its UTF-8
  encoding, which for ASCII text are its characters. \<open>str_in q x\<close> is Python's \<^verbatim>\<open>q in x\<close> on
  strings, which looks for \<open>q\<close> at every position of \<open>x\<close>; the bytes of one text occur in
  the bytes of another exactly when the first text occurs in the second, since no encoded
  character begins inside another one.

  \<^verbatim>\<open>str.lower\<close> is Python's own, not code of this program: it follows the case mappings of
  Unicode, which may look at the neighbours of a letter and may change the length of a
  text. It is the parameter \<open>lower\<close> of \<open>search_tasks\<close>, the function that takes a string
  to its lower case, and nothing is assumed of it here.
\<close>

fun starts_with :: "string \<Rightarrow> string \<Rightarrow> bool" where
  "starts_with x [] = True"
| "starts_with [] (c # q) = False"
| "starts_with (a # x) (c # q) = (a = c \<and> starts_with x q)"

fun str_in :: "string \<Rightarrow> string \<Rightarrow> bool" where
  "str_in q [] = (q = [])"
| "str_in q (a # x) = (starts_with (a # x) q \<or> str_in q x)"

definition search_tasks :: "(string \<Rightarrow> string) \<Rightarrow> store \<Rightarrow> string \<Rightarrow> task list \<times> store" where
  "search_tasks lower s query =
     (let query = lower query
      in (filter (\<lambda>t. str_in query (lower (title t)) \<or> str_in query (lower (description t)))
            (tasks s), s))"

section \<open>Sequences of calls\<close>

text \<open>
  A sequence of \<^verbatim>\<open>add_task\<close> calls, each with its arguments and its two clock readings:
  the tasks the calls return, in call order, and the store after the last one.
\<close>

fun add_all ::
  "store \<Rightarrow> (string \<times> string \<times> string \<times> string \<times> string) list \<Rightarrow> task list \<times> store" where
  "add_all s [] = ([], s)"
| "add_all s ((ttl, descr, prio, now1, now2) # calls) =
     (let (t, s1) = add_task s ttl descr prio now1 now2;
          (ts, s2) = add_all s1 calls
      in (t # ts, s2))"

text \<open>A sequence of mutating calls, and the store it leads to.\<close>

datatype operation =
    Op_add string string string string string
  | Op_update int "kwarg list" string
  | Op_delete int

fun step :: "store \<Rightarrow> operation \<Rightarrow> store" where
  "step s (Op_add ttl descr prio now1 now2) = snd (add_task s ttl descr prio now1 now2)"
| "step s (Op_update k kwargs now) = snd (update_task s k kwargs now)"
| "step s (Op_delete k) = snd (delete_task s k)"

fun run :: "store \<Rightarrow> operation list \<Rightarrow> store" where
  "run s [] = s"
| "run s (x # xs) = run (step s x) xs"

text \<open>Whether a call passes the keyword \<^verbatim>\<open>id\<close> to \<^verbatim>\<open>update_task\<close>.\<close>

fun is_Kw_id :: "kwarg \<Rightarrow> bool" where
  "is_Kw_id (Kw_id v) = True"
| "is_Kw_id kw = False"

fun supplies_id :: "operation \<Rightarrow> bool" where
  "supplies_id (Op_update k kwargs now) = list_ex is_Kw_id kwargs"
| "supplies_id x = False"

text \<open>
  The invariant behind the uniqueness of ids: the ids of the collection are pairwise
  distinct, and the counter is above all of them.
\<close>

definition id_inv :: "store \<Rightarrow> bool" where
  "id_inv s \<longleftrightarrow>
     distinct (map id_key (tasks s)) \<and> (\<forall>t \<in> set (tasks s). id_key t < next_id s)"

section \<open>What the specification calls a case-insensitive substring\<close>

text \<open>One string occurs in another when the other is the first with something before and
  something after it.\<close>

definition substring :: "string \<Rightarrow> string \<Rightarrow> bool" where
  "substring q x \<longleftrightarrow> (\<exists>pre suf. x = pre @ q @ suf)"

text \<open>
  The ASCII characters are those below 128, and the capital letters among them are \<^verbatim>\<open>A\<close> to
  \<^verbatim>\<open>Z\<close>. Two characters are the same letter without regard to case when they are equal, or
  one of them is a capital letter and the other is the small letter that belongs to it,
  32 places further on.
\<close>

definition is_ascii :: "char \<Rightarrow> bool" where
  "is_ascii c \<longleftrightarrow> of_char c < (128::nat)"

definition is_capital :: "char \<Rightarrow> bool" where
  "is_capital c \<longleftrightarrow> CHR ''A'' \<le> c \<and> c \<le> CHR ''Z''"

definition same_letter :: "char \<Rightarrow> char \<Rightarrow> bool" where
  "same_letter a b \<longleftrightarrow>
     a = b \<or>
     (is_capital a \<and> of_char b = of_char a + (32::nat)) \<or>
     (is_capital b \<and> of_char a = of_char b + (32::nat))"

text \<open>
  The query occurs in a text without regard to case when some segment of the text has
  the length of the query and is, place by place, the same letter as the query without
  regard to case.
\<close>

definition ci_substring :: "string \<Rightarrow> string \<Rightarrow> bool" where
  "ci_substring q x \<longleftrightarrow>
     (\<exists>pre mid suf. x = pre @ mid @ suf \<and> list_all2 same_letter mid q)"

text \<open>
  What \<^verbatim>\<open>str.lower\<close> does to ASCII text: the capital letters go to their small letters and
  every other character stays.
\<close>

definition ascii_lower_char :: "char \<Rightarrow> char" where
  "ascii_lower_char c = (if is_capital c then char_of (of_char c + (32::nat)) else c)"

definition ascii_lower :: "string \<Rightarrow> string" where
  "ascii_lower x = map ascii_lower_char x"

definition lower_on_ascii :: "(string \<Rightarrow> string) \<Rightarrow> bool" where
  "lower_on_ascii lower \<longleftrightarrow> (\<forall>x. list_all is_ascii x \<longrightarrow> lower x = ascii_lower x)"

section \<open>What the specification calls the order of first occurrence\<close>

text \<open>
  The values of a list, each once, in the order in which they first occur: the head comes
  first, and it is struck from what the rest of the list gives.
\<close>

fun first_occurrences :: "'a list \<Rightarrow> 'a list" where
  "first_occurrences [] = []"
| "first_occurrences (x # xs) = x # removeAll x (first_occurrences xs)"

text \<open>
  The dictionary that maps each priority of a list of priorities to the number of times
  it occurs, keyed in the order of first occurrence.
\<close>

definition tally :: "string list \<Rightarrow> (string \<times> nat) list" where
  "tally ps = map (\<lambda>p. (p, count_list ps p)) (first_occurrences ps)"

section \<open>Example data\<close>

abbreviation example_task :: "int \<Rightarrow> string \<Rightarrow> string \<Rightarrow> string \<Rightarrow> string \<Rightarrow> task" where
  "example_task i ttl descr prio st \<equiv>
     \<lparr>id_key = i, title = ttl, description = descr, priority = prio, status = st,
      created_at = ''2024-05-01T10:00:00'', updated_at = ''2024-05-01T10:00:00''\<rparr>"

abbreviation example_store :: "task list \<Rightarrow> int \<Rightarrow> store" where
  "example_store ts n \<equiv>
     \<lparr>data_file = ''tasks.json'', tasks = ts, next_id = n, document = Json ts\<rparr>"

text \<open>
  Greek letters in UTF-8: the capital alpha and sigma, the small alpha, and the two small
  sigmas, of which the second is written at the end of a word.
\<close>

abbreviation capital_alpha :: string where
  "capital_alpha \<equiv> [CHR 0xCE, CHR 0x91]"

abbreviation capital_sigma :: string where
  "capital_sigma \<equiv> [CHR 0xCE, CHR 0xA3]"

abbreviation small_alpha :: string where
  "small_alpha \<equiv> [CHR 0xCE, CHR 0xB1]"

abbreviation small_sigma :: string where
  "small_sigma \<equiv> [CHR 0xCF, CHR 0x83]"

abbreviation final_sigma :: string where
  "final_sigma \<equiv> [CHR 0xCF, CHR 0x82]"

text \<open>
  \<^verbatim>\<open>str.lower\<close> at the strings of the example of the capital sigma: alone it becomes the
  small sigma, and after the alpha, at the end of the word, it becomes the final sigma.
  At every other string the function is the one for ASCII text, which leaves the empty
  string as it is.
\<close>

abbreviation lower_at_sigma :: "string \<Rightarrow> string" where
  "lower_at_sigma \<equiv>
     ascii_lower
       (capital_sigma := small_sigma,
        capital_alpha @ capital_sigma := small_alpha @ final_sigma)"

section \<open>Facts about the scans\<close>

lemma update_scan_absent:
  "k \<notin> id_key ` set ts \<Longrightarrow> update_scan ts k kwargs now = None"
  by (induction ts) auto

lemma update_scan_found:
  "get_scan ts k = Some t \<Longrightarrow>
     \<exists>ts'. update_scan ts k kwargs now = Some (update_fields kwargs now t, ts') \<and>
           update_fields kwargs now t \<in> set ts'"
  by (induction ts) (auto simp: Let_def)

lemma delete_scan_subset: "delete_scan ts k = Some ts' \<Longrightarrow> set ts' \<subseteq> set ts"
  by (induction ts arbitrary: ts') (auto split: if_splits option.splits)

lemma delete_scan_distinct:
  "delete_scan ts k = Some ts' \<Longrightarrow> distinct (map id_key ts) \<Longrightarrow> distinct (map id_key ts')"
proof (induction ts arbitrary: ts')
  case Nil
  then show ?case by simp
next
  case (Cons a ts)
  show ?case
  proof (cases "id_key a = k")
    case True
    with Cons.prems show ?thesis by auto
  next
    case False
    with Cons.prems obtain us where us: "delete_scan ts k = Some us" and ts': "ts' = a # us"
      by (auto split: option.splits)
    from Cons.IH [OF us] Cons.prems(2) have "distinct (map id_key us)" by simp
    moreover from delete_scan_subset [OF us] Cons.prems(2) have "id_key a \<notin> id_key ` set us"
      by auto
    ultimately show ?thesis by (simp add: ts')
  qed
qed

lemma delete_task_tasks_subset: "set (tasks (snd (delete_task s k))) \<subseteq> set (tasks s)"
  using delete_scan_subset [of "tasks s" k]
  by (auto simp: delete_task_def save_tasks_def split: option.splits)

lemma delete_task_next_id: "next_id (snd (delete_task s k)) = next_id s"
  by (simp add: delete_task_def save_tasks_def split: option.splits)

lemma add_task_id: "id_key (fst (add_task s ttl descr prio now1 now2)) = next_id s"
  by (simp add: add_task_def Let_def)

lemma add_task_next_id: "next_id (snd (add_task s ttl descr prio now1 now2)) = next_id s + 1"
  by (simp add: add_task_def Let_def save_tasks_def)

lemma add_task_tasks:
  "tasks (snd (add_task s ttl descr prio now1 now2)) =
     tasks s @ [fst (add_task s ttl descr prio now1 now2)]"
  by (simp add: add_task_def Let_def save_tasks_def)

section \<open>The id of a task added after a deletion\<close>

text \<open>
  C1, as amended. \<^verbatim>\<open>delete_task\<close> leaves the counter \<^verbatim>\<open>next_id\<close> as it is, and \<^verbatim>\<open>add_task\<close>
  gives the new task the value of the counter. In a store whose counter is above every
  id of the collection, deleting the task with id \<open>k\<close> and then adding a task gives the
  new task an id that is not \<open>k\<close> and that is above every id that remains.
\<close>

theorem delete_then_add_id:
  assumes "\<forall>t \<in> set (tasks s). id_key t < next_id s"
    and "k \<in> id_key ` set (tasks s)"
  shows "id_key (fst (add_task (snd (delete_task s k)) ttl descr prio now1 now2)) = next_id s \<and>
         id_key (fst (add_task (snd (delete_task s k)) ttl descr prio now1 now2)) \<noteq> k \<and>
         (\<forall>t \<in> set (tasks (snd (delete_task s k))).
            id_key t < id_key (fst (add_task (snd (delete_task s k)) ttl descr prio now1 now2)))"
proof -
  have new: "id_key (fst (add_task (snd (delete_task s k)) ttl descr prio now1 now2)) = next_id s"
    by (simp add: add_task_id delete_task_next_id)
  from assms have "k < next_id s" by auto
  moreover have "\<forall>t \<in> set (tasks (snd (delete_task s k))). id_key t < next_id s"
    using assms(1) delete_task_tasks_subset [of s k] by blast
  ultimately show ?thesis using new by simp
qed

theorem delete_then_add_id_witness:
  "map id_key (tasks (example_store
       [example_task 1 ''a'' '''' ''medium'' ''pending'',
        example_task 2 ''b'' '''' ''high'' ''pending''] 3)) = [1, 2] \<and>
   next_id (example_store
       [example_task 1 ''a'' '''' ''medium'' ''pending'',
        example_task 2 ''b'' '''' ''high'' ''pending''] 3) = 3 \<and>
   map id_key (tasks (snd (delete_task (example_store
       [example_task 1 ''a'' '''' ''medium'' ''pending'',
        example_task 2 ''b'' '''' ''high'' ''pending''] 3) 1))) = [2] \<and>
   id_key (fst (add_task (snd (delete_task (example_store
       [example_task 1 ''a'' '''' ''medium'' ''pending'',
        example_task 2 ''b'' '''' ''high'' ''pending''] 3) 1))
     ''c'' '''' ''low'' ''2024-05-02T08:00:00'' ''2024-05-02T08:00:00'')) = 3"
proof -
  have h1: "\<forall>t \<in> set (tasks (example_store
       [example_task 1 ''a'' '''' ''medium'' ''pending'',
        example_task 2 ''b'' '''' ''high'' ''pending''] 3)).
      id_key t < next_id (example_store
       [example_task 1 ''a'' '''' ''medium'' ''pending'',
        example_task 2 ''b'' '''' ''high'' ''pending''] 3)"
    by simp
  have h2: "1 \<in> id_key ` set (tasks (example_store
       [example_task 1 ''a'' '''' ''medium'' ''pending'',
        example_task 2 ''b'' '''' ''high'' ''pending''] 3))"
    by simp
  from delete_then_add_id [OF h1 h2, of "''c''" "''''" "''low''"
      "''2024-05-02T08:00:00''" "''2024-05-02T08:00:00''"]
  show ?thesis by (simp add: delete_task_def save_tasks_def)
qed

text \<open>
  The claim as stated fails on a store built from a document with the single task 1:
  the counter is 2; after the deletion of task 1 no task remains, and the task added
  next gets the id 2, not 1.
\<close>

theorem delete_then_add_id_counterexample:
  "init ''tasks.json'' (Json [example_task 1 ''a'' '''' ''medium'' ''pending''])
     = Inr (example_store [example_task 1 ''a'' '''' ''medium'' ''pending''] 2) \<and>
   tasks (snd (delete_task
      (example_store [example_task 1 ''a'' '''' ''medium'' ''pending''] 2) 1)) = [] \<and>
   id_key (fst (add_task (snd (delete_task
      (example_store [example_task 1 ''a'' '''' ''medium'' ''pending''] 2) 1))
      ''b'' '''' ''medium'' ''2024-05-02T08:00:00'' ''2024-05-02T08:00:00'')) = 2 \<and>
   (2::int) \<noteq> 1"
  by (simp add: init_def load_tasks_def get_next_id_def delete_task_def save_tasks_def
      add_task_def Let_def)

section \<open>The timestamps of an updated task\<close>

lemma fold_set_item_created_at:
  "\<forall>v. Kw_created_at v \<notin> set kwargs \<Longrightarrow> created_at (fold set_item kwargs t) = created_at t"
proof (induction kwargs arbitrary: t)
  case Nil
  then show ?case by simp
next
  case (Cons a kwargs)
  then show ?case by (cases a) auto
qed

text \<open>
  C2, as amended. When the store holds a task with the id, \<^verbatim>\<open>update_task\<close> returns the
  updated task, which is in the collection of the new store. Its \<^verbatim>\<open>updated_at\<close> is the
  clock reading of the call, so it is at or after the previous \<^verbatim>\<open>updated_at\<close> whenever the
  clock reading is. Its \<^verbatim>\<open>created_at\<close> is the previous one unless the keyword arguments
  hold \<^verbatim>\<open>created_at\<close>.
\<close>

theorem update_task_timestamps:
  assumes "get_scan (tasks s) k = Some t"
  shows "\<exists>t' s'. update_task s k kwargs now = (Some t', s') \<and>
           t' \<in> set (tasks s') \<and>
           updated_at t' = now \<and>
           (updated_at t \<le> now \<longrightarrow> updated_at t \<le> updated_at t') \<and>
           ((\<forall>v. Kw_created_at v \<notin> set kwargs) \<longrightarrow> created_at t' = created_at t)"
proof -
  from update_scan_found [OF assms, of kwargs now]
  obtain ts' where scan: "update_scan (tasks s) k kwargs now = Some (update_fields kwargs now t, ts')"
    and mem: "update_fields kwargs now t \<in> set ts'"
    by blast
  have "update_task s k kwargs now =
        (Some (update_fields kwargs now t), save_tasks (s\<lparr>tasks := ts'\<rparr>))"
    by (simp add: update_task_def scan)
  moreover have "update_fields kwargs now t \<in> set (tasks (save_tasks (s\<lparr>tasks := ts'\<rparr>)))"
    using mem by (simp add: save_tasks_def)
  moreover have "updated_at (update_fields kwargs now t) = now"
    by (simp add: update_fields_def)
  moreover have "(\<forall>v. Kw_created_at v \<notin> set kwargs) \<longrightarrow>
                 created_at (update_fields kwargs now t) = created_at t"
    by (simp add: update_fields_def fold_set_item_created_at)
  ultimately show ?thesis by auto
qed

theorem update_task_timestamps_witness:
  "get_scan (tasks (example_store [example_task 1 ''a'' '''' ''medium'' ''pending''] 2)) 1
     = Some (example_task 1 ''a'' '''' ''medium'' ''pending'') \<and>
   (\<exists>t' s'. update_task (example_store [example_task 1 ''a'' '''' ''medium'' ''pending''] 2) 1
               [Kw_status ''completed'', Kw_other ''colour''] ''2024-05-02T08:00:00'' = (Some t', s') \<and>
            t' \<in> set (tasks s') \<and>
            updated_at t' = ''2024-05-02T08:00:00'' \<and>
            ''2024-05-01T10:00:00'' \<le> updated_at t' \<and>
            created_at t' = ''2024-05-01T10:00:00'')"
proof -
  have h: "get_scan (tasks (example_store [example_task 1 ''a'' '''' ''medium'' ''pending''] 2)) 1
     = Some (example_task 1 ''a'' '''' ''medium'' ''pending'')"
    by simp
  from update_task_timestamps [OF h, of "[Kw_status ''completed'', Kw_other ''colour'']"
      "''2024-05-02T08:00:00''"]
  show ?thesis using h by simp
qed

text \<open>
  The claim as stated fails when the call passes \<^verbatim>\<open>created_at\<close>, which is a key of the
  task: the value is stored. And when the clock reads an earlier time than the one the
  task holds, \<^verbatim>\<open>updated_at\<close> goes back.
\<close>

theorem update_task_timestamps_counterexample:
  "fst (update_task (example_store [example_task 1 ''a'' '''' ''medium'' ''pending''] 2) 1
          [Kw_created_at ''1999-01-01T00:00:00''] ''2024-05-01T09:59:59'')
   = Some \<lparr>id_key = 1, title = ''a'', description = '''', priority = ''medium'',
            status = ''pending'', created_at = ''1999-01-01T00:00:00'',
            updated_at = ''2024-05-01T09:59:59''\<rparr> \<and>
   created_at (example_task 1 ''a'' '''' ''medium'' ''pending'') \<noteq> ''1999-01-01T00:00:00'' \<and>
   \<not> updated_at (example_task 1 ''a'' '''' ''medium'' ''pending'') \<le> ''2024-05-01T09:59:59''"
  by (simp add: update_task_def update_fields_def save_tasks_def Let_def)

section \<open>Update of an id that is not in the store\<close>

text \<open>
  C3. When no task of the store has the id, \<^verbatim>\<open>update_task\<close> returns \<^verbatim>\<open>None\<close>, whatever the
  keyword arguments are, and the store it leaves is the store it was given: the same
  collection, the same counter and the same document.
\<close>

theorem update_task_absent:
  "k \<notin> id_key ` set (tasks s) \<Longrightarrow> update_task s k kwargs now = (None, s)"
  by (simp add: update_task_def update_scan_absent)

theorem update_task_absent_witness:
  "7 \<notin> id_key ` set (tasks (example_store [example_task 1 ''a'' '''' ''medium'' ''pending''] 2)) \<and>
   update_task (example_store [example_task 1 ''a'' '''' ''medium'' ''pending''] 2) 7
     [Kw_title ''x''] ''2024-05-02T08:00:00''
   = (None, example_store [example_task 1 ''a'' '''' ''medium'' ''pending''] 2)"
proof -
  have h: "7 \<notin> id_key ` set (tasks (example_store [example_task 1 ''a'' '''' ''medium'' ''pending''] 2))"
    by simp
  from update_task_absent [OF h, of "[Kw_title ''x'']" "''2024-05-02T08:00:00''"]
  show ?thesis using h by simp
qed

section \<open>Construction\<close>

text \<open>
  C4, as amended. Constructing the store on a document that is absent, or present with
  text that the JSON grammar rejects, returns a store (no error leaves \<^verbatim>\<open>__init__\<close>)
  whose collection is empty and whose next id is 1. On a document that is present and
  whose bytes are not text, \<^verbatim>\<open>UnicodeDecodeError\<close> leaves the constructor, and on one whose
  text nests too deep, \<^verbatim>\<open>RecursionError\<close> does.
\<close>

theorem init_absent_or_invalid:
  "(d = Absent \<or> d = Garbage \<longrightarrow>
      init path d = Inr \<lparr>data_file = path, tasks = [], next_id = 1, document = d\<rparr>) \<and>
   init path Undecodable = Inl UnicodeDecodeError \<and>
   init path Too_deep = Inl RecursionError"
  by (auto simp: init_def load_tasks_def get_next_id_def)

theorem init_absent_or_invalid_witness:
  "init ''tasks.json'' Garbage =
     Inr \<lparr>data_file = ''tasks.json'', tasks = [], next_id = 1, document = Garbage\<rparr> \<and>
   init ''tasks.json'' Absent =
     Inr \<lparr>data_file = ''tasks.json'', tasks = [], next_id = 1, document = Absent\<rparr>"
  using init_absent_or_invalid [of Garbage "''tasks.json''"]
    init_absent_or_invalid [of Absent "''tasks.json''"]
  by simp

text \<open>
  The claim as stated fails on the two kinds of document that are present, are not valid
  JSON, and make \<^verbatim>\<open>json.load\<close> raise an error that line 20 does not catch: the
  constructor raises it.
\<close>

theorem init_absent_or_invalid_counterexample:
  "path_exists Undecodable \<and>
   json_load Undecodable = Inl UnicodeDecodeError \<and>
   init ''tasks.json'' Undecodable = Inl UnicodeDecodeError \<and>
   path_exists Too_deep \<and>
   json_load Too_deep = Inl RecursionError \<and>
   init ''tasks.json'' Too_deep = Inl RecursionError"
  by (simp add: init_def load_tasks_def)

section \<open>Listing\<close>

text \<open>
  C5. Whatever the store and the two optional filters, the list \<^verbatim>\<open>list_tasks\<close> returns is
  in ascending order of id and holds exactly the tasks of the collection, each as often
  as the collection does, that have the status asked for, when a status that is not empty
  is given, and the priority asked for, when a priority that is not empty is given. With
  no filter it holds all tasks, in ascending order of id.
\<close>

theorem list_tasks_filtered_sorted:
  "sorted (map id_key (fst (list_tasks s st pr))) \<and>
   mset (fst (list_tasks s st pr)) =
     mset (filter (\<lambda>t. (\<forall>x. st = Some x \<and> x \<noteq> [] \<longrightarrow> status t = x) \<and>
                        (\<forall>x. pr = Some x \<and> x \<noteq> [] \<longrightarrow> priority t = x)) (tasks s)) \<and>
   sorted (map id_key (fst (list_tasks s None None))) \<and>
   mset (fst (list_tasks s None None)) = mset (tasks s)"
proof -
  have st: "(if truthy st then filter (\<lambda>t. Some (status t) = st) xs else xs) =
            filter (\<lambda>t. \<forall>x. st = Some x \<and> x \<noteq> [] \<longrightarrow> status t = x) xs" for xs
    by (cases st) (auto intro: filter_cong)
  have pr: "(if truthy pr then filter (\<lambda>t. Some (priority t) = pr) xs else xs) =
            filter (\<lambda>t. \<forall>x. pr = Some x \<and> x \<noteq> [] \<longrightarrow> priority t = x) xs" for xs
    by (cases pr) (auto intro: filter_cong)
  have "fst (list_tasks s st pr) =
        sort_key id_key
          (filter (\<lambda>t. (\<forall>x. st = Some x \<and> x \<noteq> [] \<longrightarrow> status t = x) \<and>
                        (\<forall>x. pr = Some x \<and> x \<noteq> [] \<longrightarrow> priority t = x)) (tasks s))"
    unfolding list_tasks_def Let_def fst_conv st pr filter_filter
    by (rule arg_cong [where f = "sort_key id_key"], rule filter_cong) auto
  moreover have "fst (list_tasks s None None) = sort_key id_key (tasks s)"
    by (simp add: list_tasks_def)
  ultimately show ?thesis by simp
qed

theorem list_tasks_filtered_sorted_witness:
  "fst (list_tasks (example_store
      [example_task 3 ''c'' '''' ''high'' ''completed'',
       example_task 1 ''a'' '''' ''low'' ''pending'',
       example_task 2 ''b'' '''' ''low'' ''completed''] 4) (Some ''completed'') None)
   = [example_task 2 ''b'' '''' ''low'' ''completed'',
      example_task 3 ''c'' '''' ''high'' ''completed''] \<and>
   sorted (map id_key (fst (list_tasks (example_store
      [example_task 3 ''c'' '''' ''high'' ''completed'',
       example_task 1 ''a'' '''' ''low'' ''pending'',
       example_task 2 ''b'' '''' ''low'' ''completed''] 4) (Some ''completed'') None))) \<and>
   mset (fst (list_tasks (example_store
      [example_task 3 ''c'' '''' ''high'' ''completed'',
       example_task 1 ''a'' '''' ''low'' ''pending'',
       example_task 2 ''b'' '''' ''low'' ''completed''] 4) (Some ''completed'') None))
   = mset (filter (\<lambda>t. (\<forall>x. Some ''completed'' = Some x \<and> x \<noteq> [] \<longrightarrow> status t = x) \<and>
                        (\<forall>x. (None :: string option) = Some x \<and> x \<noteq> [] \<longrightarrow> priority t = x))
       (tasks (example_store
      [example_task 3 ''c'' '''' ''high'' ''completed'',
       example_task 1 ''a'' '''' ''low'' ''pending'',
       example_task 2 ''b'' '''' ''low'' ''completed''] 4)))"
  using list_tasks_filtered_sorted [of "example_store
      [example_task 3 ''c'' '''' ''high'' ''completed'',
       example_task 1 ''a'' '''' ''low'' ''pending'',
       example_task 2 ''b'' '''' ''low'' ''completed''] 4" "Some ''completed''" None]
  by (simp add: list_tasks_def)

section \<open>Ids of a sequence of additions\<close>

lemma add_all_ids:
  "map id_key (fst (add_all s calls)) = [next_id s .. next_id s + int (length calls) - 1]"
proof (induction calls arbitrary: s)
  case Nil
  then show ?case by simp
next
  case (Cons c calls)
  obtain ttl descr prio now1 now2 where c: "c = (ttl, descr, prio, now1, now2)"
    by (cases c) auto
  have "map id_key (fst (add_all s (c # calls))) =
        next_id s # map id_key (fst (add_all (snd (add_task s ttl descr prio now1 now2)) calls))"
    by (simp add: c split_beta Let_def add_task_id)
  also have "\<dots> = next_id s # [next_id s + 1 .. next_id s + 1 + int (length calls) - 1]"
    by (simp add: Cons.IH add_task_next_id)
  also have "\<dots> = [next_id s .. next_id s + int (length (c # calls)) - 1]"
    by (simp add: upto_rec1 [of "next_id s"])
  finally show ?case .
qed

lemma add_all_tasks:
  "tasks (snd (add_all s calls)) = tasks s @ fst (add_all s calls)"
proof (induction calls arbitrary: s)
  case Nil
  then show ?case by simp
next
  case (Cons c calls)
  obtain ttl descr prio now1 now2 where c: "c = (ttl, descr, prio, now1, now2)"
    by (cases c) auto
  show ?case
    by (simp add: c split_beta Let_def Cons.IH add_task_tasks)
qed

text \<open>
  C8. On a store that has just been constructed and whose collection is empty, the tasks
  that a sequence of N calls of \<^verbatim>\<open>add_task\<close> returns have the ids 1, 2, ..., N in call
  order, and these tasks, in this order, are the collection of the store afterwards.
\<close>

theorem add_all_from_empty:
  assumes "init path d = Inr s" and "tasks s = []"
  shows "map id_key (fst (add_all s calls)) = [1 .. int (length calls)] \<and>
         tasks (snd (add_all s calls)) = fst (add_all s calls)"
proof -
  from assms have "next_id s = 1"
    by (auto simp: init_def get_next_id_def split: sum.splits)
  then show ?thesis
    using add_all_ids [of s calls] add_all_tasks [of s calls] assms(2) by simp
qed

theorem add_all_from_empty_witness:
  "init ''tasks.json'' Absent =
     Inr \<lparr>data_file = ''tasks.json'', tasks = [], next_id = 1, document = Absent\<rparr> \<and>
   tasks \<lparr>data_file = ''tasks.json'', tasks = [], next_id = 1, document = Absent\<rparr> = [] \<and>
   map id_key (fst (add_all
      \<lparr>data_file = ''tasks.json'', tasks = [], next_id = 1, document = Absent\<rparr>
      [(''a'', '''', ''medium'', ''2024-05-01T10:00:00'', ''2024-05-01T10:00:00''),
       (''b'', ''x'', ''high'', ''2024-05-01T10:00:01'', ''2024-05-01T10:00:02''),
       (''c'', '''', ''low'', ''2024-05-01T10:00:03'', ''2024-05-01T10:00:03'')])) = [1, 2, 3]"
proof -
  have h1: "init ''tasks.json'' Absent =
     Inr \<lparr>data_file = ''tasks.json'', tasks = [], next_id = 1, document = Absent\<rparr>"
    by (simp add: init_def load_tasks_def get_next_id_def)
  have h2: "tasks \<lparr>data_file = ''tasks.json'', tasks = [], next_id = 1, document = Absent\<rparr> = []"
    by simp
  have "[1 .. int (length
      [(''a'', '''', ''medium'', ''2024-05-01T10:00:00'', ''2024-05-01T10:00:00''),
       (''b'', ''x'', ''high'', ''2024-05-01T10:00:01'', ''2024-05-01T10:00:02''),
       (''c'', '''', ''low'', ''2024-05-01T10:00:03'', ''2024-05-01T10:00:03'')])] = [1, 2, 3]"
    by (simp add: upto_rec1)
  then show ?thesis
    using h1 h2 add_all_from_empty [OF h1 h2, of
      "[(''a'', '''', ''medium'', ''2024-05-01T10:00:00'', ''2024-05-01T10:00:00''),
        (''b'', ''x'', ''high'', ''2024-05-01T10:00:01'', ''2024-05-01T10:00:02''),
        (''c'', '''', ''low'', ''2024-05-01T10:00:03'', ''2024-05-01T10:00:03'')]"]
    by simp
qed

section \<open>Uniqueness of ids\<close>

lemma fold_set_item_id:
  "\<not> list_ex is_Kw_id kwargs \<Longrightarrow> id_key (fold set_item kwargs t) = id_key t"
proof (induction kwargs arbitrary: t)
  case Nil
  then show ?case by simp
next
  case (Cons a kwargs)
  then show ?case by (cases a) auto
qed

lemma update_fields_id:
  "\<not> list_ex is_Kw_id kwargs \<Longrightarrow> id_key (update_fields kwargs now t) = id_key t"
  by (simp add: update_fields_def fold_set_item_id)

lemma update_scan_ids:
  "\<not> list_ex is_Kw_id kwargs \<Longrightarrow> update_scan ts k kwargs now = Some (t', ts') \<Longrightarrow>
     map id_key ts' = map id_key ts"
  by (induction ts arbitrary: ts')
     (auto simp: Let_def update_fields_id split: if_splits option.splits)

lemma step_id_inv:
  assumes "id_inv s" and "\<not> supplies_id x"
  shows "id_inv (step s x)"
proof (cases x)
  case (Op_add ttl descr prio now1 now2)
  with assms(1) show ?thesis
    by (auto simp: id_inv_def add_task_def Let_def save_tasks_def)
next
  case (Op_update k kwargs now)
  with assms(2) have no: "\<not> list_ex is_Kw_id kwargs" by simp
  show ?thesis
  proof (cases "update_scan (tasks s) k kwargs now")
    case None
    with assms(1) Op_update show ?thesis by (simp add: update_task_def)
  next
    case (Some r)
    obtain t' ts' where r: "r = (t', ts')" by (cases r)
    from update_scan_ids [OF no Some [unfolded r]]
    have "map id_key ts' = map id_key (tasks s)" .
    then have "distinct (map id_key ts') \<and> (\<forall>t \<in> set ts'. id_key t < next_id s)"
      using assms(1) unfolding id_inv_def
      by (metis (no_types, lifting) imageE image_eqI list.set_map)
    with Op_update Some r show ?thesis
      by (simp add: id_inv_def update_task_def save_tasks_def)
  qed
next
  case (Op_delete k)
  show ?thesis
  proof (cases "delete_scan (tasks s) k")
    case None
    with assms(1) Op_delete show ?thesis by (simp add: delete_task_def)
  next
    case (Some ts')
    from delete_scan_subset [OF Some] delete_scan_distinct [OF Some] assms(1)
    have "distinct (map id_key ts') \<and> (\<forall>t \<in> set ts'. id_key t < next_id s)"
      unfolding id_inv_def by auto
    with Op_delete Some show ?thesis
      by (simp add: id_inv_def delete_task_def save_tasks_def)
  qed
qed

lemma run_id_inv:
  "id_inv s \<Longrightarrow> \<forall>x \<in> set xs. \<not> supplies_id x \<Longrightarrow> id_inv (run s xs)"
  by (induction xs arbitrary: s) (auto simp: step_id_inv)

lemma fold_max_ge: "x \<le> fold max xs (x::int)"
  by (induction xs arbitrary: x) (auto intro: order_trans [OF max.cobounded2])

lemma fold_max_bound: "y \<in> set xs \<Longrightarrow> y \<le> fold max xs (x::int)"
  by (induction xs arbitrary: x) (auto intro: order_trans [OF max.cobounded1 fold_max_ge])

lemma get_next_id_bound: "t \<in> set ts \<Longrightarrow> id_key t < get_next_id ts"
proof (cases ts)
  case Nil
  assume "t \<in> set ts"
  with Nil show ?thesis by simp
next
  case (Cons a us)
  assume "t \<in> set ts"
  with Cons have "t = a \<or> id_key t \<in> set (map id_key us)" by auto
  then have "id_key t \<le> fold max (map id_key us) (id_key a)"
    using fold_max_ge [of "id_key a" "map id_key us"]
      fold_max_bound [of "id_key t" "map id_key us" "id_key a"] by auto
  with Cons show ?thesis by (simp add: get_next_id_def)
qed

lemma init_id_bound:
  "init path d = Inr s \<Longrightarrow> \<forall>t \<in> set (tasks s). id_key t < next_id s"
  by (auto simp: init_def get_next_id_bound split: sum.splits)

text \<open>
  C9, as amended. From a store whose ids are pairwise distinct and all below the counter
  \<^verbatim>\<open>next_id\<close>, as they are below it in every store that has just been constructed, every
  sequence of \<^verbatim>\<open>add_task\<close>, \<^verbatim>\<open>delete_task\<close> and \<^verbatim>\<open>update_task\<close> calls, none of which passes
  the keyword \<^verbatim>\<open>id\<close> to \<^verbatim>\<open>update_task\<close>, leads to a store whose ids are pairwise distinct.
\<close>

theorem unique_ids_invariant:
  assumes "distinct (map id_key (tasks s))"
    and "\<forall>t \<in> set (tasks s). id_key t < next_id s"
    and "\<forall>x \<in> set xs. \<not> supplies_id x"
  shows "distinct (map id_key (tasks (run s xs)))"
  using run_id_inv [of s xs] assms by (simp add: id_inv_def)

theorem unique_ids_invariant_witness:
  "map id_key (tasks (example_store
      [example_task 1 ''a'' '''' ''medium'' ''pending'',
       example_task 2 ''b'' '''' ''high'' ''pending''] 3)) = [1, 2] \<and>
   next_id (example_store
      [example_task 1 ''a'' '''' ''medium'' ''pending'',
       example_task 2 ''b'' '''' ''high'' ''pending''] 3) = 3 \<and>
   map supplies_id [Op_delete 1,
               Op_add ''c'' '''' ''low'' ''2024-05-02T08:00:00'' ''2024-05-02T08:00:00'',
               Op_update 2 [Kw_status ''completed''] ''2024-05-02T09:00:00'']
     = [False, False, False] \<and>
   distinct (map id_key (tasks (run (example_store
      [example_task 1 ''a'' '''' ''medium'' ''pending'',
       example_task 2 ''b'' '''' ''high'' ''pending''] 3)
      [Op_delete 1,
       Op_add ''c'' '''' ''low'' ''2024-05-02T08:00:00'' ''2024-05-02T08:00:00'',
       Op_update 2 [Kw_status ''completed''] ''2024-05-02T09:00:00''])))"
proof -
  have h1: "distinct (map id_key (tasks (example_store
      [example_task 1 ''a'' '''' ''medium'' ''pending'',
       example_task 2 ''b'' '''' ''high'' ''pending''] 3)))"
    by simp
  have h2: "\<forall>t \<in> set (tasks (example_store
      [example_task 1 ''a'' '''' ''medium'' ''pending'',
       example_task 2 ''b'' '''' ''high'' ''pending''] 3)).
      id_key t < next_id (example_store
      [example_task 1 ''a'' '''' ''medium'' ''pending'',
       example_task 2 ''b'' '''' ''high'' ''pending''] 3)"
    by simp
  have h3: "\<forall>x \<in> set [Op_delete 1,
               Op_add ''c'' '''' ''low'' ''2024-05-02T08:00:00'' ''2024-05-02T08:00:00'',
               Op_update 2 [Kw_status ''completed''] ''2024-05-02T09:00:00''].
      \<not> supplies_id x"
    by simp
  from unique_ids_invariant [OF h1 h2 h3]
  show ?thesis by simp
qed

text \<open>
  The claim as stated fails when \<^verbatim>\<open>update_task\<close> is passed the keyword \<^verbatim>\<open>id\<close>, which is a
  key of the task: in a store with the tasks 1 and 2, giving task 1 the id 2 leaves two
  tasks with the id 2. And in a store whose counter is not above its ids, \<^verbatim>\<open>add_task\<close>
  gives out an id that is in use.
\<close>

theorem unique_ids_invariant_counterexample:
  "distinct (map id_key (tasks (example_store
      [example_task 1 ''a'' '''' ''medium'' ''pending'',
       example_task 2 ''b'' '''' ''high'' ''pending''] 3))) \<and>
   map id_key (tasks (run (example_store
      [example_task 1 ''a'' '''' ''medium'' ''pending'',
       example_task 2 ''b'' '''' ''high'' ''pending''] 3)
      [Op_update 1 [Kw_id 2] ''2024-05-02T08:00:00''])) = [2, 2] \<and>
   \<not> distinct (map id_key (tasks (run (example_store
      [example_task 1 ''a'' '''' ''medium'' ''pending'',
       example_task 2 ''b'' '''' ''high'' ''pending''] 3)
      [Op_update 1 [Kw_id 2] ''2024-05-02T08:00:00'']))) \<and>
   map id_key (tasks (run (example_store [example_task 1 ''a'' '''' ''medium'' ''pending''] 1)
      [Op_add ''b'' '''' ''low'' ''2024-05-02T08:00:00'' ''2024-05-02T08:00:00''])) = [1, 1]"
  by (simp add: update_task_def update_fields_def add_task_def save_tasks_def Let_def)

section \<open>The queries leave the store as it is\<close>

text \<open>
  C10. \<^verbatim>\<open>get_task\<close>, \<^verbatim>\<open>list_tasks\<close>, \<^verbatim>\<open>search_tasks\<close> and \<^verbatim>\<open>get_stats\<close> leave the store they are
  called on as it is, whatever their arguments: the collection, the counter and the
  document after the call are those before it.
\<close>

theorem queries_leave_store:
  "snd (get_task s k) = s \<and> snd (list_tasks s st pr) = s \<and>
   snd (search_tasks lower s query) = s \<and> snd (get_stats s) = s"
  by (simp add: get_task_def list_tasks_def search_tasks_def get_stats_def Let_def)

section \<open>Search\<close>

lemma starts_with_iff: "starts_with x q \<longleftrightarrow> (\<exists>suf. x = q @ suf)"
  by (induction x q rule: starts_with.induct) auto

lemma str_in_iff: "str_in q x \<longleftrightarrow> (\<exists>pre suf. x = pre @ q @ suf)"
proof (induction x)
  case Nil
  then show ?case by simp
next
  case (Cons a x)
  have "(\<exists>pre suf. a # x = pre @ q @ suf) \<longleftrightarrow>
        (\<exists>suf. a # x = q @ suf) \<or> (\<exists>pre suf. x = pre @ q @ suf)"
  proof
    assume "\<exists>pre suf. a # x = pre @ q @ suf"
    then obtain pre suf where eq: "a # x = pre @ q @ suf" by blast
    show "(\<exists>suf. a # x = q @ suf) \<or> (\<exists>pre suf. x = pre @ q @ suf)"
    proof (cases pre)
      case Nil
      with eq show ?thesis by auto
    next
      case (Cons b pre')
      with eq have "x = pre' @ q @ suf" by simp
      then show ?thesis by blast
    qed
  next
    assume "(\<exists>suf. a # x = q @ suf) \<or> (\<exists>pre suf. x = pre @ q @ suf)"
    then show "\<exists>pre suf. a # x = pre @ q @ suf"
    proof
      assume "\<exists>suf. a # x = q @ suf"
      then obtain suf where "a # x = [] @ q @ suf" by auto
      then show ?thesis by blast
    next
      assume "\<exists>pre suf. x = pre @ q @ suf"
      then obtain pre suf where "a # x = (a # pre) @ q @ suf" by auto
      then show ?thesis by blast
    qed
  qed
  with Cons show ?case by (simp add: starts_with_iff)
qed

lemma str_in_substring: "str_in q x \<longleftrightarrow> substring q x"
  by (simp add: str_in_iff substring_def)

lemma of_char_less_256: "(of_char c :: nat) < 256"
proof -
  have "(of_char c :: nat) mod 256 = of_char c" by (rule of_char_mod_256)
  moreover have "(of_char c :: nat) mod 256 < 256" by simp
  ultimately show ?thesis by simp
qed

lemma is_capital_iff: "is_capital c \<longleftrightarrow> 65 \<le> (of_char c :: nat) \<and> (of_char c :: nat) \<le> 90"
  by (simp add: is_capital_def less_eq_char_def)

lemma of_char_ascii_lower_char:
  "(of_char (ascii_lower_char c) :: nat) = (if is_capital c then of_char c + 32 else of_char c)"
  by (simp add: ascii_lower_char_def is_capital_iff)

lemma same_letter_iff: "same_letter a b \<longleftrightarrow> ascii_lower_char a = ascii_lower_char b"
proof -
  have "ascii_lower_char a = ascii_lower_char b \<longleftrightarrow>
        (of_char (ascii_lower_char a) :: nat) = of_char (ascii_lower_char b)"
    by simp
  also have "\<dots> \<longleftrightarrow>
        (if is_capital a then of_char a + 32 else of_char a) =
        (if is_capital b then of_char b + 32 else (of_char b :: nat))"
    by (simp only: of_char_ascii_lower_char)
  also have "\<dots> \<longleftrightarrow>
        (of_char a :: nat) = of_char b \<or>
        (is_capital a \<and> (of_char b :: nat) = of_char a + 32) \<or>
        (is_capital b \<and> (of_char a :: nat) = of_char b + 32)"
    by (auto simp: is_capital_iff)
  also have "\<dots> \<longleftrightarrow> same_letter a b"
    by (simp add: same_letter_def)
  finally show ?thesis by simp
qed

lemma list_all2_same_letter:
  "list_all2 same_letter xs ys \<longleftrightarrow> ascii_lower xs = ascii_lower ys"
proof (induction xs arbitrary: ys)
  case Nil
  then show ?case by (simp add: ascii_lower_def)
next
  case (Cons a xs)
  then show ?case
    by (cases ys) (auto simp: ascii_lower_def same_letter_iff)
qed

lemma str_in_ascii_lower:
  "str_in (ascii_lower q) (ascii_lower x) \<longleftrightarrow> ci_substring q x"
proof
  assume "str_in (ascii_lower q) (ascii_lower x)"
  then obtain pre suf where
    "map ascii_lower_char x = pre @ map ascii_lower_char q @ suf"
    by (auto simp: str_in_iff ascii_lower_def)
  then have "\<exists>x1 x2. x = x1 @ x2 \<and> pre = map ascii_lower_char x1 \<and>
                  map ascii_lower_char q @ suf = map ascii_lower_char x2"
    by (simp add: map_eq_append_conv)
  then obtain x1 x2 where x: "x = x1 @ x2"
    and x2: "map ascii_lower_char x2 = map ascii_lower_char q @ suf"
    by auto
  from x2 have "\<exists>mid x3. x2 = mid @ x3 \<and>
                  map ascii_lower_char q = map ascii_lower_char mid \<and>
                  suf = map ascii_lower_char x3"
    by (simp add: map_eq_append_conv)
  then obtain mid x3 where "x2 = mid @ x3" and "ascii_lower mid = ascii_lower q"
    by (auto simp: ascii_lower_def)
  with x have "x = x1 @ mid @ x3 \<and> list_all2 same_letter mid q"
    by (simp add: list_all2_same_letter)
  then show "ci_substring q x" unfolding ci_substring_def by blast
next
  assume "ci_substring q x"
  then obtain pre mid suf where "x = pre @ mid @ suf" and "list_all2 same_letter mid q"
    unfolding ci_substring_def by blast
  then have "ascii_lower x = ascii_lower pre @ ascii_lower q @ ascii_lower suf"
    by (simp add: list_all2_same_letter) (simp add: ascii_lower_def)
  then show "str_in (ascii_lower q) (ascii_lower x)"
    unfolding str_in_iff by blast
qed

text \<open>
  C6, as amended. Whatever the store and the query, \<^verbatim>\<open>search_tasks\<close> returns, in the order
  of the collection, the tasks for which the lower case of the query, as \<^verbatim>\<open>str.lower\<close>
  gives it, occurs in the lower case of the title or in the lower case of the
  description, all of them and no others. When the query and the titles and
  descriptions of the collection are ASCII text, these are the tasks whose title or
  description has the query as a substring without regard to case.
\<close>

theorem search_tasks_matches:
  "fst (search_tasks lower s query) =
     filter (\<lambda>t. substring (lower query) (lower (title t)) \<or>
                  substring (lower query) (lower (description t))) (tasks s) \<and>
   (lower_on_ascii lower \<and> list_all is_ascii query \<and>
    (\<forall>t \<in> set (tasks s). list_all is_ascii (title t) \<and> list_all is_ascii (description t)) \<longrightarrow>
    fst (search_tasks lower s query) =
      filter (\<lambda>t. ci_substring query (title t) \<or> ci_substring query (description t)) (tasks s))"
proof (intro conjI impI)
  show "fst (search_tasks lower s query) =
     filter (\<lambda>t. substring (lower query) (lower (title t)) \<or>
                  substring (lower query) (lower (description t))) (tasks s)"
    by (simp add: search_tasks_def Let_def str_in_substring)
next
  assume h: "lower_on_ascii lower \<and> list_all is_ascii query \<and>
    (\<forall>t \<in> set (tasks s). list_all is_ascii (title t) \<and> list_all is_ascii (description t))"
  then have q: "lower query = ascii_lower query"
    by (simp add: lower_on_ascii_def)
  have t: "lower (title t) = ascii_lower (title t) \<and>
           lower (description t) = ascii_lower (description t)" if "t \<in> set (tasks s)" for t
    using h that by (simp add: lower_on_ascii_def)
  have "filter (\<lambda>t. str_in (lower query) (lower (title t)) \<or>
                     str_in (lower query) (lower (description t))) (tasks s) =
        filter (\<lambda>t. ci_substring query (title t) \<or> ci_substring query (description t)) (tasks s)"
    by (rule filter_cong) (simp_all add: q t str_in_ascii_lower)
  then show "fst (search_tasks lower s query) =
      filter (\<lambda>t. ci_substring query (title t) \<or> ci_substring query (description t)) (tasks s)"
    by (simp add: search_tasks_def Let_def)
qed

text \<open>
  The example of the specification: the query \<^verbatim>\<open>API\<close> finds the task whose description
  holds \<^verbatim>\<open>api endpoint\<close> and the task with the title \<^verbatim>\<open>Design api layer\<close>, in the order of
  the collection, which is not the order of the ids.
\<close>

theorem search_tasks_matches_witness:
  "filter (\<lambda>t. ci_substring ''API'' (title t) \<or> ci_substring ''API'' (description t))
     (tasks (example_store
      [example_task 2 ''Write docs'' ''describe the api endpoint'' ''low'' ''pending'',
       example_task 3 ''Buy milk'' '''' ''low'' ''pending'',
       example_task 1 ''Design api layer'' '''' ''high'' ''pending''] 4))
   = [example_task 2 ''Write docs'' ''describe the api endpoint'' ''low'' ''pending'',
      example_task 1 ''Design api layer'' '''' ''high'' ''pending'']"
proof -
  have h1: "lower_on_ascii ascii_lower"
    by (simp add: lower_on_ascii_def)
  have h2: "list_all is_ascii ''API''"
    by code_simp
  have h3: "\<forall>t \<in> set (tasks (example_store
      [example_task 2 ''Write docs'' ''describe the api endpoint'' ''low'' ''pending'',
       example_task 3 ''Buy milk'' '''' ''low'' ''pending'',
       example_task 1 ''Design api layer'' '''' ''high'' ''pending''] 4)).
        list_all is_ascii (title t) \<and> list_all is_ascii (description t)"
    by code_simp
  have ev: "fst (search_tasks ascii_lower (example_store
      [example_task 2 ''Write docs'' ''describe the api endpoint'' ''low'' ''pending'',
       example_task 3 ''Buy milk'' '''' ''low'' ''pending'',
       example_task 1 ''Design api layer'' '''' ''high'' ''pending''] 4) ''API'')
   = [example_task 2 ''Write docs'' ''describe the api endpoint'' ''low'' ''pending'',
      example_task 1 ''Design api layer'' '''' ''high'' ''pending'']"
    by code_simp
  from search_tasks_matches [of ascii_lower "example_store
      [example_task 2 ''Write docs'' ''describe the api endpoint'' ''low'' ''pending'',
       example_task 3 ''Buy milk'' '''' ''low'' ''pending'',
       example_task 1 ''Design api layer'' '''' ''high'' ''pending''] 4" "''API''"] h1 h2 h3
  have eq: "fst (search_tasks ascii_lower (example_store
      [example_task 2 ''Write docs'' ''describe the api endpoint'' ''low'' ''pending'',
       example_task 3 ''Buy milk'' '''' ''low'' ''pending'',
       example_task 1 ''Design api layer'' '''' ''high'' ''pending''] 4) ''API'') =
    filter (\<lambda>t. ci_substring ''API'' (title t) \<or> ci_substring ''API'' (description t))
     (tasks (example_store
      [example_task 2 ''Write docs'' ''describe the api endpoint'' ''low'' ''pending'',
       example_task 3 ''Buy milk'' '''' ''low'' ''pending'',
       example_task 1 ''Design api layer'' '''' ''high'' ''pending''] 4))"
    by blast
  show ?thesis
    by (rule trans [OF sym [OF eq] ev])
qed

text \<open>
  The claim as stated fails on a task with the title of capital alpha and capital sigma
  and the query of the capital sigma alone. The title has the query in it as it stands.
  \<^verbatim>\<open>str.lower\<close> makes the small sigma of the query and the final sigma of the title's
  last letter, the one is not found in the other, and the task is not returned.
\<close>

theorem search_tasks_matches_counterexample:
  "ci_substring capital_sigma (capital_alpha @ capital_sigma) \<and>
   fst (search_tasks lower_at_sigma
          (example_store
             [example_task 1 (capital_alpha @ capital_sigma) '''' ''low'' ''pending''] 2)
          capital_sigma) = []"
proof
  have "capital_alpha @ capital_sigma = capital_alpha @ capital_sigma @ [] \<and>
        list_all2 same_letter capital_sigma capital_sigma"
    by (simp add: same_letter_def)
  then show "ci_substring capital_sigma (capital_alpha @ capital_sigma)"
    unfolding ci_substring_def by blast
next
  show "fst (search_tasks lower_at_sigma
          (example_store
             [example_task 1 (capital_alpha @ capital_sigma) '''' ''low'' ''pending''] 2)
          capital_sigma) = []"
    by (simp add: search_tasks_def Let_def ascii_lower_def)
qed

section \<open>Statistics\<close>

lemma first_occurrences_set: "set (first_occurrences xs) = set xs"
  by (induction xs) auto

lemma first_occurrences_distinct: "distinct (first_occurrences xs)"
  by (induction xs) (auto simp: distinct_removeAll first_occurrences_set)

lemma first_occurrences_snoc:
  "first_occurrences (xs @ [p]) =
     (if p \<in> set xs then first_occurrences xs else first_occurrences xs @ [p])"
  by (induction xs) auto

lemma update_map_absent:
  "k \<notin> set ks \<Longrightarrow>
     AList.update k v (map (\<lambda>q. (q, f q)) ks) = map (\<lambda>q. (q, f q)) ks @ [(k, v)]"
  by (induction ks) auto

lemma update_map_present:
  "distinct ks \<Longrightarrow> k \<in> set ks \<Longrightarrow>
     AList.update k v (map (\<lambda>q. (q, f q)) ks) = map (\<lambda>q. (q, if q = k then v else f q)) ks"
  by (induction ks) auto

lemma map_of_map_keys:
  "map_of (map (\<lambda>q. (q, f q)) ks) k = (if k \<in> set ks then Some (f k) else None)"
  by (induction ks) auto

lemma count_list_snoc: "count_list (xs @ [p]) q = count_list xs q + (if q = p then 1 else 0)"
  by (induction xs) auto

lemma count_list_absent: "p \<notin> set xs \<Longrightarrow> count_list xs p = 0"
  by (induction xs) auto

text \<open>One turn of the loop of lines 98-100 takes the tally of a list to that of the list
  with one more priority at its end.\<close>

lemma tally_step:
  "AList.update p (dict_get (tally ps) p 0 + 1) (tally ps) = tally (ps @ [p])"
proof (cases "p \<in> set ps")
  case True
  then have "dict_get (tally ps) p 0 = count_list ps p"
    by (simp add: dict_get_def tally_def map_of_map_keys first_occurrences_set)
  with True show ?thesis
    by (simp add: tally_def update_map_present first_occurrences_snoc count_list_snoc
        first_occurrences_set first_occurrences_distinct)
next
  case False
  then have "dict_get (tally ps) p 0 = 0"
    by (simp add: dict_get_def tally_def map_of_map_keys first_occurrences_set)
  with False show ?thesis
    by (auto simp: tally_def update_map_absent first_occurrences_snoc count_list_snoc
        count_list_absent first_occurrences_set)
qed

lemma priority_loop_tally:
  "priority_loop ts (tally ps) = tally (ps @ map priority ts)"
proof (induction ts arbitrary: ps)
  case Nil
  then show ?case by simp
next
  case (Cons t ts)
  have "priority_loop (t # ts) (tally ps) = priority_loop ts (tally (ps @ [priority t]))"
    by (simp only: priority_loop.simps tally_step)
  also have "\<dots> = tally ((ps @ [priority t]) @ map priority ts)"
    by (rule Cons.IH)
  finally show ?case by simp
qed

lemma length_filter_status:
  "length (filter (\<lambda>t. status t = x) ts) = count_list (map status ts) x"
  by (induction ts) auto

text \<open>
  C7. Whatever the store, \<^verbatim>\<open>get_stats\<close> returns as \<^verbatim>\<open>total\<close> the size of the collection, as
  \<^verbatim>\<open>pending\<close> the number of tasks whose status is \<^verbatim>\<open>pending\<close>, as \<^verbatim>\<open>completed\<close> the number of
  tasks whose status is \<^verbatim>\<open>completed\<close>, and as \<^verbatim>\<open>by_priority\<close> the dictionary whose keys are
  the priorities that occur in the collection, in the order of their first occurrence,
  each with the number of tasks that have it.
\<close>

theorem get_stats_counts:
  "total (fst (get_stats s)) = length (tasks s) \<and>
   pending (fst (get_stats s)) = count_list (map status (tasks s)) ''pending'' \<and>
   completed (fst (get_stats s)) = count_list (map status (tasks s)) ''completed'' \<and>
   by_priority (fst (get_stats s)) =
     map (\<lambda>p. (p, count_list (map priority (tasks s)) p))
       (first_occurrences (map priority (tasks s)))"
proof -
  have "priority_loop (tasks s) [] = tally (map priority (tasks s))"
    using priority_loop_tally [of "tasks s" "[]"] by (simp add: tally_def)
  then show ?thesis
    by (simp add: get_stats_def length_filter_status tally_def)
qed

text \<open>
  The example of the specification: two tasks of priority \<^verbatim>\<open>high\<close>, one pending and one
  completed, then a pending task of priority \<^verbatim>\<open>low\<close>.
\<close>

theorem get_stats_counts_witness:
  "total (fst (get_stats (example_store
      [example_task 1 ''a'' '''' ''high'' ''pending'',
       example_task 2 ''b'' '''' ''high'' ''completed'',
       example_task 3 ''c'' '''' ''low'' ''pending''] 4))) = 3 \<and>
   pending (fst (get_stats (example_store
      [example_task 1 ''a'' '''' ''high'' ''pending'',
       example_task 2 ''b'' '''' ''high'' ''completed'',
       example_task 3 ''c'' '''' ''low'' ''pending''] 4))) = 2 \<and>
   completed (fst (get_stats (example_store
      [example_task 1 ''a'' '''' ''high'' ''pending'',
       example_task 2 ''b'' '''' ''high'' ''completed'',
       example_task 3 ''c'' '''' ''low'' ''pending''] 4))) = 1 \<and>
   by_priority (fst (get_stats (example_store
      [example_task 1 ''a'' '''' ''high'' ''pending'',
       example_task 2 ''b'' '''' ''high'' ''completed'',
       example_task 3 ''c'' '''' ''low'' ''pending''] 4))) = [(''high'', 2), (''low'', 1)]"
  using get_stats_counts [of "example_store
      [example_task 1 ''a'' '''' ''high'' ''pending'',
       example_task 2 ''b'' '''' ''high'' ''completed'',
       example_task 3 ''c'' '''' ''low'' ''pending''] 4"]
  by simp

end
